theory Spec2Isabelle
  imports Main "HOL-Library.AList"
begin

section \<open>Python preliminaries\<close>

text \<open>
  The exceptions the modelled code can raise. A function that may raise returns
  \<open>py_error + 'a\<close>, with \<open>Inl\<close> for the exception.
\<close>

datatype py_error = IndexError | KeyError | AttributeError | OSError | TypeError

text \<open>
  A Python \<open>dict\<close> (and \<open>OrderedDict\<close>) is an association list in insertion order:
  \<open>d.get(k)\<close> is \<open>map_of d k\<close>, \<open>d[k] = v\<close> is \<open>AList.update k v d\<close> (an existing key
  keeps its position, a new key is appended), \<open>d.pop(k, None)\<close> is \<open>AList.delete k d\<close>.
\<close>

type_synonym ('k, 'v) dict = "('k \<times> 'v) list"

text \<open>\<open>s.split(c)\<close>: the pieces of \<open>s\<close> between the occurrences of \<open>c\<close>; never empty.\<close>

fun split_acc :: "char \<Rightarrow> string \<Rightarrow> string \<Rightarrow> string list" where
  "split_acc c cur [] = [cur]"
| "split_acc c cur (x # xs) =
     (if x = c then cur # split_acc c [] xs else split_acc c (cur @ [x]) xs)"

definition split :: "char \<Rightarrow> string \<Rightarrow> string list" where
  "split c s = split_acc c [] s"

text \<open>
  \<open>Path(fname).name\<close> of \<open>pathlib\<close> (POSIX flavour): the last component of the path,
  where empty components and \<open>.\<close> components do not count; the empty string when
  there is none.
\<close>

definition path_name :: "string \<Rightarrow> string" where
  "path_name fname =
     (case filter (\<lambda>p. p \<noteq> [] \<and> p \<noteq> ''.'') (split CHR ''/'' fname) of
        [] \<Rightarrow> []
      | p # ps \<Rightarrow> last (p # ps))"

text \<open>\<open>str(n)\<close> for integers: the decimal digits, with a sign for a negative number.\<close>

definition digit_char :: "nat \<Rightarrow> char" where
  "digit_char n = ''0123456789'' ! n"

fun str_of_nat :: "nat \<Rightarrow> string" where
  "str_of_nat n =
     (if n < 10 then [digit_char n]
      else str_of_nat (n div 10) @ [digit_char (n mod 10)])"

definition str_of_int :: "int \<Rightarrow> string" where
  "str_of_int i = (if i < 0 then CHR ''-'' # str_of_nat (nat (- i)) else str_of_nat (nat i))"

section \<open>Logged quantities\<close>

text \<open>
  The class \<open>LoggedQuantity\<close> is imported by \<open>base_app.py\<close> and is not among the
  sources. Its objects are shared by reference between the collections and the
  path registry, so they live in a store, addressed by \<open>addr\<close>.
\<close>

type_synonym addr = nat

datatype pyval = PBool bool | PInt int | PStr string

record lq =
  lq_name :: string
  lq_path :: string
  val :: pyval
  protected :: bool
  proposed_values :: "(string, pyval) dict"

text \<open>
  Modelled from the spec: \<open>LoggedQuantity.update_value\<close>, which is not among the
  sources. The spec's write "unconditionally sets the value".
\<close>

definition update_value :: "lq \<Rightarrow> pyval \<Rightarrow> lq" where
  "update_value q v = q\<lparr>val := v\<rparr>"

text \<open>
  Modelled from the spec: \<open>LoggedQuantity.propose_value\<close>, which is not among the
  sources. It "attaches (label, value) to that Setting's proposal history without
  changing its current value"; the history is "a mapping from provenance-label to
  previously proposed value".
\<close>

definition propose_value :: "lq \<Rightarrow> string \<Rightarrow> pyval \<Rightarrow> lq" where
  "propose_value q name v = q\<lparr>proposed_values := AList.update name v (proposed_values q)\<rparr>"

text \<open>
  Modelled from the spec: \<open>LoggedQuantity.ini_string_value\<close>, which is not among the
  sources: the "canonical string form" of the current value, here Python's \<open>str\<close>.
\<close>

fun str_of_val :: "pyval \<Rightarrow> string" where
  "str_of_val (PBool b) = (if b then ''True'' else ''False'')"
| "str_of_val (PInt i) = str_of_int i"
| "str_of_val (PStr s) = s"

definition ini_string_value :: "lq \<Rightarrow> pyval" where
  "ini_string_value q = PStr (str_of_val (val q))"

section \<open>INI files\<close>

text \<open>
  Modelled from the spec: the module \<open>ini_io\<close>, which is not among the sources. A
  file holds "path-keyed key/value pairs", "values serialized as their canonical
  string form"; the flat layout the spec allows is taken. \<open>load\<close> "parses the file
  into path\<rightarrow>string-value pairs"; a missing file and a destination that cannot be
  opened for writing are reported errors.
\<close>

type_synonym ini_file = "(string, string) dict"

record file_system =
  files :: "(string, ini_file) dict"
  read_only :: "string list"


definition load_settings :: "file_system \<Rightarrow> string \<Rightarrow> py_error + (string, pyval) dict" where
  "load_settings fs fname =
     (case map_of (files fs) fname of
        None \<Rightarrow> Inl OSError
      | Some f \<Rightarrow> Inr (foldl (\<lambda>d (p, v). AList.update p (PStr v) d) [] f))"

section \<open>BaseApp\<close>

datatype WRITE_RES = SUCCESS | MISSING | PROTECTED

text \<open>
  The state of a \<open>BaseApp\<close>: the path registry \<open>_setting_paths\<close>, the app's own
  collection \<open>settings\<close> (name to setting), the store of the \<open>LoggedQuantity\<close>
  objects, and the file system the INI functions work on.
\<close>

record base_app =
  setting_paths :: "(string, addr) dict"
  settings :: "(string, addr) dict"
  lqs :: "addr \<Rightarrow> lq"
  fs :: file_system

definition add_setting_path :: "'a base_app_scheme \<Rightarrow> addr \<Rightarrow> 'a base_app_scheme" where
  "add_setting_path s a =
     s\<lparr>setting_paths := AList.update (lq_path (lqs s a)) a (setting_paths s)\<rparr>"

definition remove_setting_path :: "'a base_app_scheme \<Rightarrow> addr \<Rightarrow> 'a base_app_scheme" where
  "remove_setting_path s a =
     s\<lparr>setting_paths := AList.delete (lq_path (lqs s a)) (setting_paths s)\<rparr>"

text \<open>
  \<open>add_lq_collection_to_settings_path\<close> registers every setting of a collection, in
  the collection's order. (It also subscribes to the collection's add and remove
  signals; the sources hold no operation that emits them.)
\<close>

definition add_lq_collection_to_settings_path ::
  "'a base_app_scheme \<Rightarrow> (string, addr) dict \<Rightarrow> 'a base_app_scheme" where
  "add_lq_collection_to_settings_path s coll = foldl add_setting_path s (map snd coll)"

definition get_lq :: "'a base_app_scheme \<Rightarrow> string \<Rightarrow> addr option" where
  "get_lq s path = map_of (setting_paths s) path"

definition write_setting ::
  "'a base_app_scheme \<Rightarrow> string \<Rightarrow> pyval \<Rightarrow> WRITE_RES \<times> 'a base_app_scheme" where
  "write_setting s path v =
     (case get_lq s path of
        None \<Rightarrow> (MISSING, s)
      | Some a \<Rightarrow> (SUCCESS, s\<lparr>lqs := (lqs s)(a := update_value (lqs s a) v)\<rparr>))"

definition write_setting_safe ::
  "'a base_app_scheme \<Rightarrow> string \<Rightarrow> pyval \<Rightarrow> WRITE_RES \<times> 'a base_app_scheme" where
  "write_setting_safe s path v =
     (case get_lq s path of
        None \<Rightarrow> (MISSING, s)
      | Some a \<Rightarrow>
          if protected (lqs s a) then (PROTECTED, s)
          else (SUCCESS, s\<lparr>lqs := (lqs s)(a := update_value (lqs s a) v)\<rparr>))"

text \<open>The loop of \<open>write_settings_safe\<close>, with the report built so far.\<close>

fun write_settings_loop ::
  "(string, WRITE_RES) dict \<Rightarrow> 'a base_app_scheme \<Rightarrow> (string, pyval) dict \<Rightarrow>
   (string, WRITE_RES) dict \<times> 'a base_app_scheme" where
  "write_settings_loop report s [] = (report, s)"
| "write_settings_loop report s ((path, v) # rest) =
     (case write_setting_safe s path v of
        (success, s') \<Rightarrow> write_settings_loop (AList.update path success report) s' rest)"

definition write_settings_safe ::
  "'a base_app_scheme \<Rightarrow> (string, pyval) dict \<Rightarrow>
   (string, WRITE_RES) dict \<times> 'a base_app_scheme" where
  "write_settings_safe s m = write_settings_loop [] s m"

text \<open>
  \<open>read_setting\<close> has no guard for a path that does not resolve: \<open>lq\<close> is then
  \<open>None\<close> and the attribute access raises \<open>AttributeError\<close>.
\<close>

definition read_setting :: "'a base_app_scheme \<Rightarrow> string \<Rightarrow> bool \<Rightarrow> py_error + pyval" where
  "read_setting s path ini_string =
     (case get_lq s path of
        None \<Rightarrow> Inl AttributeError
      | Some a \<Rightarrow> if ini_string then Inr (ini_string_value (lqs s a)) else Inr (val (lqs s a)))"

text \<open>The dict comprehension of \<open>read_settings\<close>: the first read that raises ends it.\<close>

fun read_settings_loop ::
  "(string, pyval) dict \<Rightarrow> 'a base_app_scheme \<Rightarrow> string list \<Rightarrow> bool \<Rightarrow>
   py_error + (string, pyval) dict" where
  "read_settings_loop acc s [] ini_string = Inr acc"
| "read_settings_loop acc s (p # ps) ini_string =
     (case read_setting s p ini_string of
        Inl e \<Rightarrow> Inl e
      | Inr v \<Rightarrow> read_settings_loop (AList.update p v acc) s ps ini_string)"

definition read_settings ::
  "'a base_app_scheme \<Rightarrow> string list option \<Rightarrow> bool \<Rightarrow> py_error + (string, pyval) dict" where
  "read_settings s paths ini_string =
     read_settings_loop [] s
       (case paths of None \<Rightarrow> map fst (setting_paths s) | Some ps \<Rightarrow> ps) ini_string"

fun propose_settings_values ::
  "'a base_app_scheme \<Rightarrow> string \<Rightarrow> (string, pyval) dict \<Rightarrow> 'a base_app_scheme" where
  "propose_settings_values s name [] = s"
| "propose_settings_values s name ((path, v) # rest) =
     (case get_lq s path of
        None \<Rightarrow> propose_settings_values s name rest
      | Some a \<Rightarrow>
          propose_settings_values
            (s\<lparr>lqs := (lqs s)(a := propose_value (lqs s a) name v)\<rparr>) name rest)"


definition settings_load_ini ::
  "'a base_app_scheme \<Rightarrow> string \<Rightarrow> py_error + (string, pyval) dict \<times> 'a base_app_scheme" where
  "settings_load_ini s fname =
     (case load_settings (fs s) fname of
        Inl e \<Rightarrow> Inl e
      | Inr m \<Rightarrow>
          (case write_settings_safe s m of
             (report, s') \<Rightarrow> Inr (m, propose_settings_values s' (path_name fname) m)))"

section \<open>DataBrowser\<close>

text \<open>
  A view (\<open>DataBrowserView\<close>, not among the sources) has a name, its own settings
  collection, the flag \<open>view_loaded\<close> and the predicate \<open>is_file_supported\<close>. View
  objects are shared by reference (\<open>views\<close>, \<open>current_view\<close>), so they live in a
  store of their own. The widget \<open>view.ui\<close> is identified with the view's address.
  \<open>setup_calls\<close> counts the calls of \<open>view.setup()\<close> and \<open>file_changes\<close> records the
  calls of \<open>view.on_change_data_filename(fname)\<close>.
\<close>

record view =
  view_name :: string
  view_settings :: "(string, addr) dict"
  view_loaded :: bool
  is_file_supported :: "string \<Rightarrow> bool"
  setup_calls :: nat
  file_changes :: "pyval list"

record plugin =
  plugin_name :: string
  plugin_settings :: "(string, addr) dict"

text \<open>
  Modelled from the spec: \<open>DataBrowserView.setup\<close>, the view's "setup routine", which
  is not among the sources; only the call is counted.
\<close>

definition view_setup :: "view \<Rightarrow> view" where
  "view_setup w = w\<lparr>setup_calls := Suc (setup_calls w)\<rparr>"

text \<open>
  Modelled from the spec: \<open>DataBrowserView.on_change_data_filename\<close>, the "file
  changed" notification of a view, which is not among the sources; only the call is
  recorded.
\<close>

definition view_on_change_data_filename :: "view \<Rightarrow> pyval \<Rightarrow> view" where
  "view_on_change_data_filename w fname = w\<lparr>file_changes := file_changes w @ [fname]\<rparr>"

text \<open>
  The state of a \<open>DataBrowser\<close> extends that of a \<open>BaseApp\<close>. \<open>view_stack\<close> is the
  \<open>QStackedWidget\<close>: the widgets in index order, and the current index.
  \<open>regular_files\<close> are the names for which \<open>Path(fname).is_file()\<close> holds.
\<close>

record data_browser = base_app +
  views :: "(string, addr) dict"
  view_objs :: "addr \<Rightarrow> view"
  plugins :: "(string, plugin) dict"
  current_view :: addr
  view_stack :: "addr list"
  view_stack_current :: nat
  view_stack_indices :: "(string, nat) dict"
  regular_files :: "string list"

text \<open>
  \<open>QStackedWidget.addWidget\<close> appends the widget and returns its index; the first
  widget of an empty stack becomes the current one. \<open>setCurrentIndex\<close> ignores an
  index that has no widget.
\<close>

definition add_widget :: "data_browser \<Rightarrow> addr \<Rightarrow> nat \<times> data_browser" where
  "add_widget s w =
     (length (view_stack s),
      s\<lparr>view_stack := view_stack s @ [w],
        view_stack_current := (if view_stack s = [] then 0 else view_stack_current s)\<rparr>)"

definition set_current_index :: "data_browser \<Rightarrow> nat \<Rightarrow> data_browser" where
  "set_current_index s i =
     (if i < length (view_stack s) then s\<lparr>view_stack_current := i\<rparr> else s)"

text \<open>
  Modelled from the spec: \<open>LQCollection.get_lq(name)\<close> and \<open>collection[name]\<close> (the
  value of the setting), which are not among the sources. A collection is "an
  ordered mapping from name to LQ, exposing dictionary-like access"; a name that is
  not in the collection raises \<open>KeyError\<close>.
\<close>

definition collection_get_lq :: "(string, addr) dict \<Rightarrow> string \<Rightarrow> py_error + addr" where
  "collection_get_lq coll name =
     (case map_of coll name of None \<Rightarrow> Inl KeyError | Some a \<Rightarrow> Inr a)"

definition collection_getitem ::
  "(addr \<Rightarrow> lq) \<Rightarrow> (string, addr) dict \<Rightarrow> string \<Rightarrow> py_error + pyval" where
  "collection_getitem st coll name =
     (case map_of coll name of None \<Rightarrow> Inl KeyError | Some a \<Rightarrow> Inr (val (st a)))"

text \<open>
  \<open>LoggedQuantity.change_choice_list\<close> is not among the sources, and the spec does
  not describe it. The call may notify the listeners of the setting, which can
  change any part of the state, and it may raise. Its effect is therefore a
  parameter of \<open>add_view\<close>: a function of the state, the setting and the new
  choices.
\<close>

type_synonym choice_hook = "data_browser \<Rightarrow> addr \<Rightarrow> string list \<Rightarrow> py_error + data_browser"

definition add_view :: "choice_hook \<Rightarrow> data_browser \<Rightarrow> addr \<Rightarrow> py_error + data_browser" where
  "add_view change_choice_list s new_view =
     (let s1 = s\<lparr>views := AList.update (view_name (view_objs s new_view)) new_view (views s)\<rparr>;
          s2 = add_lq_collection_to_settings_path s1 (view_settings (view_objs s1 new_view))
      in case collection_get_lq (settings s2) ''view_name'' of
           Inl e \<Rightarrow> Inl e
         | Inr a \<Rightarrow> change_choice_list s2 a (map fst (views s2)))"

text \<open>\<open>load_view\<close> is the deprecated name of \<open>add_view\<close>.\<close>

definition load_view :: "choice_hook \<Rightarrow> data_browser \<Rightarrow> addr \<Rightarrow> py_error + data_browser" where
  "load_view change_choice_list s new_view = add_view change_choice_list s new_view"

definition setup_view :: "data_browser \<Rightarrow> addr \<Rightarrow> py_error + data_browser" where
  "setup_view s v =
     (let s1 =
        (if \<not> view_loaded (view_objs s v) then
           (let sa = s\<lparr>view_objs := (view_objs s)(v := view_setup (view_objs s v))\<rparr>;
                (index, sb) = add_widget sa (current_view sa);
                sc = sb\<lparr>view_stack_indices :=
                          AList.update (view_name (view_objs sb v)) index (view_stack_indices sb)\<rparr>
            in sc\<lparr>view_objs := (view_objs sc)(v := (view_objs sc v)\<lparr>view_loaded := True\<rparr>)\<rparr>)
         else s);
          s2 = s1\<lparr>current_view := v\<rparr>
      in case map_of (view_stack_indices s2) (view_name (view_objs s2 v)) of
           None \<Rightarrow> Inl KeyError
         | Some i \<Rightarrow> Inr (set_current_index s2 i))"

text \<open>\<open>Path(fname).is_file()\<close>; \<open>Path\<close> raises \<open>TypeError\<close> for a value that is no string.\<close>

definition is_file :: "data_browser \<Rightarrow> pyval \<Rightarrow> py_error + bool" where
  "is_file s fname =
     (case fname of PStr f \<Rightarrow> Inr (f \<in> set (regular_files s)) | _ \<Rightarrow> Inl TypeError)"

definition on_change_view_name :: "data_browser \<Rightarrow> py_error + data_browser" where
  "on_change_view_name s =
     (case collection_getitem (lqs s) (settings s) ''view_name'' of
        Inl e \<Rightarrow> Inl e
      | Inr name \<Rightarrow>
          (case (case name of PStr n \<Rightarrow> map_of (views s) n | _ \<Rightarrow> None) of
             None \<Rightarrow> Inl KeyError
           | Some v \<Rightarrow>
               (case setup_view (s\<lparr>current_view := v\<rparr>) v of
                  Inl e \<Rightarrow> Inl e
                | Inr s1 \<Rightarrow>
                    (case collection_getitem (lqs s1) (settings s1) ''data_filename'' of
                       Inl e \<Rightarrow> Inl e
                     | Inr fname \<Rightarrow>
                         (case is_file s1 fname of
                            Inl e \<Rightarrow> Inl e
                          | Inr True \<Rightarrow>
                              Inr (s1\<lparr>view_objs := (view_objs s1)(current_view s1 :=
                                      view_on_change_data_filename
                                        (view_objs s1 (current_view s1)) fname)\<rparr>)
                          | Inr False \<Rightarrow> Inr s1)))))"

text \<open>The loop of \<open>auto_select_view\<close> over the reversed items of \<open>views\<close>.\<close>

fun auto_select_loop :: "(addr \<Rightarrow> view) \<Rightarrow> (string \<times> addr) list \<Rightarrow> string \<Rightarrow> string" where
  "auto_select_loop vo [] fname = ''file_info''"
| "auto_select_loop vo ((name, v) # rest) fname =
     (if is_file_supported (vo v) fname then name else auto_select_loop vo rest fname)"

definition auto_select_view :: "data_browser \<Rightarrow> string \<Rightarrow> string" where
  "auto_select_view s fname = auto_select_loop (view_objs s) (rev (views s)) fname"

text \<open>
  \<open>DataBrowser.get_lq\<close> overrides \<open>BaseApp.get_lq\<close>. \<open>parts[1]\<close> raises \<open>IndexError\<close>
  when the path has one segment only; \<open>parts[-1]\<close> is the last segment. The result
  is the setting found (\<open>None\<close> when the last segment is not in the collection) and
  the state, which \<open>load_view\<close> may have changed.
\<close>

definition db_get_lq ::
  "choice_hook \<Rightarrow> data_browser \<Rightarrow> string \<Rightarrow> py_error + addr option \<times> data_browser" where
  "db_get_lq change_choice_list s path =
     (let parts = split CHR ''/'' path in
      case parts of
        [] \<Rightarrow> Inl IndexError
      | p0 # ps \<Rightarrow>
          if p0 = ''view'' then
            (case ps of
               [] \<Rightarrow> Inl IndexError
             | p1 # _ \<Rightarrow>
                 (case map_of (views s) p1 of
                    None \<Rightarrow> Inr (map_of (settings s) (last parts), s)
                  | Some v \<Rightarrow>
                      (case load_view change_choice_list s v of
                         Inl e \<Rightarrow> Inl e
                       | Inr s' \<Rightarrow>
                           Inr (map_of (view_settings (view_objs s' v)) (last parts), s'))))
          else if p0 = ''plugin'' then
            (case ps of
               [] \<Rightarrow> Inl IndexError
             | p1 # _ \<Rightarrow>
                 (case map_of (plugins s) p1 of
                    None \<Rightarrow> Inr (map_of (settings s) (last parts), s)
                  | Some pl \<Rightarrow> Inr (map_of (plugin_settings pl) (last parts), s)))
          else Inr (map_of (settings s) (last parts), s))"

section \<open>Definitions for the statements\<close>

text \<open>
  The result code the spec gives a path: \<open>PathMissing\<close> when the path has no
  registered setting, \<open>Protected\<close> when the setting is protected, \<open>Success\<close>
  otherwise.
\<close>

definition write_result :: "'a base_app_scheme \<Rightarrow> string \<Rightarrow> WRITE_RES" where
  "write_result s path =
     (case get_lq s path of
        None \<Rightarrow> MISSING
      | Some a \<Rightarrow> if protected (lqs s a) then PROTECTED else SUCCESS)"


text \<open>
  The resolution of a path as the specification words it: "if the first segment
  names a known section (view, plugin) and the second segment names a known
  sub-container, resolve the remaining suffix against that sub-container's
  collection; otherwise resolve the whole path against the root collection
  directly".
\<close>

fun join_slash :: "string list \<Rightarrow> string" where
  "join_slash [] = []"
| "join_slash [p] = p"
| "join_slash (p # ps) = p @ CHR ''/'' # join_slash ps"

definition spec_get_lq :: "data_browser \<Rightarrow> string \<Rightarrow> addr option" where
  "spec_get_lq s path =
     (case split CHR ''/'' path of
        p0 # p1 # suffix \<Rightarrow>
          if p0 = ''view'' then
            (case map_of (views s) p1 of
               Some v \<Rightarrow> map_of (view_settings (view_objs s v)) (join_slash suffix)
             | None \<Rightarrow> map_of (settings s) path)
          else if p0 = ''plugin'' then
            (case map_of (plugins s) p1 of
               Some pl \<Rightarrow> map_of (plugin_settings pl) (join_slash suffix)
             | None \<Rightarrow> map_of (settings s) path)
          else map_of (settings s) path
      | _ \<Rightarrow> map_of (settings s) path)"

section \<open>Example states\<close>

text \<open>
  An app with the settings \<open>app/gain\<close> and \<open>app/serial\<close>, the second protected. The
  objects 2 and 3 are settings that are not registered; 2 has the path of 0.
\<close>

definition default_lq :: lq where
  "default_lq = \<lparr>lq_name = [], lq_path = [], val = PInt 0, protected = False,
                  proposed_values = []\<rparr>"

definition ex_app :: base_app where
  "ex_app =
     \<lparr>setting_paths = [(''app/gain'', 0), (''app/serial'', 1)],
      settings = [(''gain'', 0), (''serial'', 1)],
      lqs = (\<lambda>_. default_lq)
        (0 := \<lparr>lq_name = ''gain'', lq_path = ''app/gain'', val = PInt 1, protected = False,
                proposed_values = []\<rparr>,
         1 := \<lparr>lq_name = ''serial'', lq_path = ''app/serial'', val = PInt 10, protected = True,
                proposed_values = []\<rparr>,
         2 := \<lparr>lq_name = ''gain'', lq_path = ''app/gain'', val = PInt 7, protected = False,
                proposed_values = []\<rparr>,
         3 := \<lparr>lq_name = ''spare'', lq_path = ''app/spare'', val = PInt 0, protected = False,
                proposed_values = []\<rparr>),
      fs = \<lparr>files = [], read_only = []\<rparr>\<rparr>"

text \<open>A mapping with a missing, a writable and a protected path of \<open>ex_app\<close>.\<close>

definition ex_writes :: "(string, pyval) dict" where
  "ex_writes = [(''app/gone'', PInt 1), (''app/gain'', PInt 2), (''app/serial'', PInt 3)]"

text \<open>
  A data browser with the views \<open>A\<close>, \<open>B\<close> and \<open>C\<close>, registered in this order and
  none of them loaded, and the plugin \<open>P\<close>. \<open>B\<close> and \<open>C\<close> support the file
  \<open>x.dat\<close>. View \<open>A\<close> has the setting \<open>x\<close>, the plugin has the setting \<open>y\<close>.
\<close>

definition default_view :: view where
  "default_view = \<lparr>view_name = [], view_settings = [], view_loaded = False,
                    is_file_supported = (\<lambda>_. False), setup_calls = 0, file_changes = []\<rparr>"

definition ex_db :: data_browser where
  "ex_db =
     \<lparr>setting_paths = [(''app/data_filename'', 0), (''app/view_name'', 1),
                       (''view/A/x'', 2), (''plugin/P/y'', 3)],
      settings = [(''data_filename'', 0), (''view_name'', 1)],
      lqs = (\<lambda>_. default_lq)
        (0 := default_lq\<lparr>lq_name := ''data_filename'', lq_path := ''app/data_filename'',
                          val := PStr ''x.dat''\<rparr>,
         1 := default_lq\<lparr>lq_name := ''view_name'', lq_path := ''app/view_name'',
                          val := PStr ''A''\<rparr>,
         2 := default_lq\<lparr>lq_name := ''x'', lq_path := ''view/A/x''\<rparr>,
         3 := default_lq\<lparr>lq_name := ''y'', lq_path := ''plugin/P/y''\<rparr>),
      fs = \<lparr>files = [], read_only = []\<rparr>,
      views = [(''A'', 0), (''B'', 1), (''C'', 2)],
      view_objs = (\<lambda>_. default_view)
        (0 := default_view\<lparr>view_name := ''A'', view_settings := [(''x'', 2)]\<rparr>,
         1 := default_view\<lparr>view_name := ''B'', is_file_supported := (\<lambda>f. f = ''x.dat'')\<rparr>,
         2 := default_view\<lparr>view_name := ''C'', is_file_supported := (\<lambda>f. f = ''x.dat'')\<rparr>),
      plugins = [(''P'', \<lparr>plugin_name = ''P'', plugin_settings = [(''y'', 3)]\<rparr>)],
      current_view = 0,
      view_stack = [],
      view_stack_current = 0,
      view_stack_indices = [],
      regular_files = [''x.dat'']\<rparr>"

text \<open>
  The app \<open>ex_app\<close> with an INI file on disk that holds a path that is not
  registered and the path of the protected setting.
\<close>

definition ex_saved :: base_app where
  "ex_saved =
     ex_app\<lparr>fs := \<lparr>files = [(''saved/fileA.ini'', [(''app/gone'', ''7''), (''app/serial'', ''5'')])],
                   read_only = []\<rparr>\<rparr>"

section \<open>Writing settings\<close>

text \<open>
  C1. For a registered setting whose protected flag is set, \<open>write_setting_safe\<close>
  returns \<open>PROTECTED\<close> and leaves the whole state, so the setting's value, as it
  is. \<open>write_setting\<close> on a path that resolves returns \<open>SUCCESS\<close> and sets the value,
  whatever the protected flag is. For a path that does not resolve both return
  \<open>MISSING\<close> and change nothing.
\<close>

theorem write_setting_protected:
  "(get_lq s path = Some a \<and> protected (lqs s a) \<longrightarrow>
      write_setting_safe s path v = (PROTECTED, s)) \<and>
   (get_lq s path = Some a \<longrightarrow>
      write_setting s path v = (SUCCESS, s\<lparr>lqs := (lqs s)(a := (lqs s a)\<lparr>val := v\<rparr>)\<rparr>)) \<and>
   (get_lq s path = None \<longrightarrow>
      write_setting s path v = (MISSING, s) \<and> write_setting_safe s path v = (MISSING, s))"
  by (simp add: write_setting_def write_setting_safe_def update_value_def)

theorem write_setting_protected_witness:
  "get_lq ex_app ''app/serial'' = Some 1 \<and> protected (lqs ex_app 1) \<and>
   val (lqs ex_app 1) = PInt 10 \<and>
   write_setting_safe ex_app ''app/serial'' (PInt 5) = (PROTECTED, ex_app) \<and>
   fst (write_setting ex_app ''app/serial'' (PInt 5)) = SUCCESS \<and>
   val (lqs (snd (write_setting ex_app ''app/serial'' (PInt 5))) 1) = PInt 5 \<and>
   get_lq ex_app ''app/gone'' = None \<and>
   write_setting ex_app ''app/gone'' (PInt 5) = (MISSING, ex_app) \<and>
   write_setting_safe ex_app ''app/gone'' (PInt 5) = (MISSING, ex_app)"
proof -
  have h1: "get_lq ex_app ''app/serial'' = Some 1"
    by (simp add: get_lq_def ex_app_def)
  have h2: "protected (lqs ex_app 1)" "val (lqs ex_app 1) = PInt 10"
    by (simp_all add: ex_app_def)
  have h3: "get_lq ex_app ''app/gone'' = None"
    by (simp add: get_lq_def ex_app_def)
  show ?thesis
    using write_setting_protected [of ex_app "''app/serial''" 1 "PInt 5"]
      write_setting_protected [of ex_app "''app/gone''" 0 "PInt 5"] h1 h2 h3
    by simp
qed

section \<open>The path registry\<close>

lemma map_of_update_other: "q \<noteq> p \<Longrightarrow> map_of (AList.update p a al) q = map_of al q"
  by (simp add: update_conv')

lemma get_lq_add_same: "get_lq (add_setting_path s a) (lq_path (lqs s a)) = Some a"
  by (simp add: add_setting_path_def get_lq_def update_conv')

lemma get_lq_add_other:
  "q \<noteq> lq_path (lqs s a) \<Longrightarrow> get_lq (add_setting_path s a) q = get_lq s q"
  by (simp add: add_setting_path_def get_lq_def update_conv')

lemma lqs_add_setting_path: "lqs (add_setting_path s a) = lqs s"
  by (simp add: add_setting_path_def)

lemma distinct_add_setting_path:
  "distinct (map fst (setting_paths s)) \<Longrightarrow>
   distinct (map fst (setting_paths (add_setting_path s a)))"
  by (simp add: add_setting_path_def distinct_update)

lemma distinct_remove_setting_path:
  "distinct (map fst (setting_paths s)) \<Longrightarrow>
   distinct (map fst (setting_paths (remove_setting_path s a)))"
  by (simp add: remove_setting_path_def distinct_delete)

lemma remove_setting_path_absent:
  "get_lq s (lq_path (lqs s a)) = None \<Longrightarrow> remove_setting_path s a = s"
  by (simp add: remove_setting_path_def get_lq_def map_of_eq_None_iff)

lemma get_lq_remove_same: "get_lq (remove_setting_path s a) (lq_path (lqs s a)) = None"
  by (simp add: remove_setting_path_def get_lq_def delete_conv')

text \<open>
  C9. The registry holds at most one setting per path: its keys stay distinct under
  registering and unregistering. Registering a second setting at a path that is
  already taken makes the path resolve to the second one, and the first one, if no
  other path led to it, is no longer reachable by any path. Other paths are not
  affected. Unregistering a setting whose path is not registered changes nothing.
\<close>

theorem registry_last_register_wins:
  assumes "distinct (map fst (setting_paths s))"
  shows "distinct (map fst (setting_paths (add_setting_path s a))) \<and>
     distinct (map fst (setting_paths (remove_setting_path s a))) \<and>
     get_lq (add_setting_path s a) (lq_path (lqs s a)) = Some a \<and>
     (lq_path (lqs s b) = lq_path (lqs s a) \<longrightarrow>
        get_lq (add_setting_path (add_setting_path s a) b) (lq_path (lqs s a)) = Some b \<and>
        (a \<noteq> b \<and> (\<forall>q. q \<noteq> lq_path (lqs s a) \<longrightarrow> get_lq s q \<noteq> Some a) \<longrightarrow>
           (\<forall>q. get_lq (add_setting_path (add_setting_path s a) b) q \<noteq> Some a))) \<and>
     (\<forall>q. q \<noteq> lq_path (lqs s a) \<longrightarrow> get_lq (add_setting_path s a) q = get_lq s q) \<and>
     (get_lq s (lq_path (lqs s a)) = None \<longrightarrow> remove_setting_path s a = s) \<and>
     get_lq (remove_setting_path s a) (lq_path (lqs s a)) = None"
proof -
  let ?p = "lq_path (lqs s a)"
  let ?s1 = "add_setting_path s a"
  let ?s2 = "add_setting_path ?s1 b"
  have second: "get_lq ?s2 ?p = Some b" if "lq_path (lqs s b) = ?p"
    using that get_lq_add_same [of ?s1 b] by (simp add: lqs_add_setting_path)
  have first_gone: "get_lq ?s2 q \<noteq> Some a"
    if eq: "lq_path (lqs s b) = ?p" and ne: "a \<noteq> b"
      and only: "\<forall>q. q \<noteq> ?p \<longrightarrow> get_lq s q \<noteq> Some a" for q
  proof (cases "q = ?p")
    case True
    then show ?thesis using second [OF eq] ne by simp
  next
    case False
    then have "get_lq ?s2 q = get_lq s q"
      using eq get_lq_add_other [of q ?s1 b] get_lq_add_other [of q s a]
      by (simp add: lqs_add_setting_path)
    then show ?thesis using only False by simp
  qed
  show ?thesis
    using assms second first_gone
    by (simp add: distinct_add_setting_path distinct_remove_setting_path get_lq_add_same
        get_lq_add_other remove_setting_path_absent get_lq_remove_same)
qed


theorem registry_last_register_wins_witness:
  "distinct (map fst (setting_paths ex_app)) \<and>
   lq_path (lqs ex_app 2) = lq_path (lqs ex_app 0) \<and>
   get_lq ex_app ''app/gain'' = Some 0 \<and>
   get_lq (add_setting_path (add_setting_path ex_app 0) 2) ''app/gain'' = Some 2 \<and>
   (\<forall>q. get_lq (add_setting_path (add_setting_path ex_app 0) 2) q \<noteq> Some 0) \<and>
   get_lq ex_app (lq_path (lqs ex_app 3)) = None \<and>
   remove_setting_path ex_app 3 = ex_app"
proof -
  have d: "distinct (map fst (setting_paths ex_app))"
    by (simp add: ex_app_def)
  have p: "lq_path (lqs ex_app 2) = lq_path (lqs ex_app 0)" "lq_path (lqs ex_app 0) = ''app/gain''"
    by (simp_all add: ex_app_def)
  have g: "get_lq ex_app ''app/gain'' = Some 0"
    by (simp add: get_lq_def ex_app_def)
  have only: "\<forall>q. q \<noteq> lq_path (lqs ex_app 0) \<longrightarrow> get_lq ex_app q \<noteq> Some 0"
    by (simp add: get_lq_def ex_app_def)
  have n: "get_lq ex_app (lq_path (lqs ex_app 3)) = None"
    by (simp add: get_lq_def ex_app_def)
  show ?thesis
    using registry_last_register_wins [OF d, of 0 2] registry_last_register_wins [OF d, of 3 3]
      d p g only n
    by simp
qed

section \<open>Bulk writes\<close>

lemma update_fresh: "k \<notin> fst ` set al \<Longrightarrow> AList.update k v al = al @ [(k, v)]"
  by (induction al) auto

lemma wss_fst: "fst (write_setting_safe s p v) = write_result s p"
  by (simp add: write_setting_safe_def write_result_def split: option.splits)

lemma wss_get_lq: "get_lq (snd (write_setting_safe s p v)) q = get_lq s q"
  by (simp add: write_setting_safe_def get_lq_def split: option.splits)

lemma wss_paths: "setting_paths (snd (write_setting_safe s p v)) = setting_paths s"
  by (simp add: write_setting_safe_def split: option.splits)

lemma wss_protected: "protected (lqs (snd (write_setting_safe s p v)) a) = protected (lqs s a)"
  by (simp add: write_setting_safe_def update_value_def split: option.splits)

lemma wss_result_stable: "write_result (snd (write_setting_safe s p v)) q = write_result s q"
  by (simp add: write_result_def wss_get_lq wss_protected split: option.splits)

lemma wss_lqs_other:
  "get_lq s p \<noteq> Some a \<or> protected (lqs s a) \<Longrightarrow> lqs (snd (write_setting_safe s p v)) a = lqs s a"
  by (auto simp: write_setting_safe_def split: option.splits)

lemma wss_lqs_hit:
  "get_lq s p = Some a \<Longrightarrow> \<not> protected (lqs s a) \<Longrightarrow>
   lqs (snd (write_setting_safe s p v)) a = (lqs s a)\<lparr>val := v\<rparr>"
  by (simp add: write_setting_safe_def update_value_def)

lemma loop_Cons:
  "write_settings_loop r s ((p, v) # rest) =
   write_settings_loop (AList.update p (write_result s p) r) (snd (write_setting_safe s p v)) rest"
  by (simp add: case_prod_beta wss_fst)

lemma loop_report:
  "fst (write_settings_loop r s m) =
   foldl (\<lambda>r pv. AList.update (fst pv) (write_result s (fst pv)) r) r m"
proof (induction m arbitrary: r s)
  case Nil
  then show ?case by simp
next
  case (Cons pv rest)
  obtain p v where pv: "pv = (p, v)" by (cases pv)
  show ?case
    unfolding pv loop_Cons Cons.IH by (simp add: wss_result_stable)
qed

lemma foldl_update_fresh:
  "distinct (map fst m) \<Longrightarrow> fst ` set m \<inter> fst ` set r = {} \<Longrightarrow>
   foldl (\<lambda>r pv. AList.update (fst pv) (f (fst pv)) r) r m = r @ map (\<lambda>pv. (fst pv, f (fst pv))) m"
proof (induction m arbitrary: r)
  case Nil
  then show ?case by simp
next
  case (Cons pv rest)
  have fresh: "fst pv \<notin> fst ` set r" using Cons.prems(2) by auto
  have "fst ` set rest \<inter> fst ` set (r @ [(fst pv, f (fst pv))]) = {}"
    using Cons.prems by auto
  with Cons.IH [of "r @ [(fst pv, f (fst pv))]"] Cons.prems(1) show ?case
    by (simp add: update_fresh [OF fresh])
qed

lemma loop_paths: "setting_paths (snd (write_settings_loop r s m)) = setting_paths s"
proof (induction m arbitrary: r s)
  case Nil
  then show ?case by simp
next
  case (Cons pv rest)
  obtain p v where pv: "pv = (p, v)" by (cases pv)
  show ?case unfolding pv loop_Cons Cons.IH by (rule wss_paths)
qed

lemma loop_untouched:
  "\<forall>pv\<in>set m. get_lq s (fst pv) = Some a \<longrightarrow> protected (lqs s a) \<Longrightarrow>
   lqs (snd (write_settings_loop r s m)) a = lqs s a"
proof (induction m arbitrary: r s)
  case Nil
  then show ?case by simp
next
  case (Cons pv rest)
  obtain p v where pv: "pv = (p, v)" by (cases pv)
  let ?s = "snd (write_setting_safe s p v)"
  have step: "lqs ?s a = lqs s a"
    using Cons.prems pv by (intro wss_lqs_other) auto
  have "\<forall>pv\<in>set rest. get_lq ?s (fst pv) = Some a \<longrightarrow> protected (lqs ?s a)"
    using Cons.prems by (simp add: wss_get_lq wss_protected)
  from Cons.IH [OF this] step show ?case
    unfolding pv loop_Cons by simp
qed

lemma loop_hit:
  assumes "distinct (map fst m)" "(p, v) \<in> set m" "get_lq s p = Some a"
    "\<not> protected (lqs s a)" "\<forall>qw\<in>set m. get_lq s (fst qw) = Some a \<longrightarrow> fst qw = p"
  shows "lqs (snd (write_settings_loop r s m)) a = (lqs s a)\<lparr>val := v\<rparr>"
  using assms
proof (induction m arbitrary: r s)
  case Nil
  then show ?case by simp
next
  case (Cons qw rest)
  obtain q w where qw: "qw = (q, w)" by (cases qw)
  let ?s = "snd (write_setting_safe s q w)"
  show ?case
  proof (cases "q = p")
    case True
    have "p \<notin> fst ` set rest" using Cons.prems(1) qw True by simp
    then have vw: "w = v" and "\<forall>pv\<in>set rest. fst pv \<noteq> p"
      using Cons.prems(2) qw True by force+
    then have "\<forall>pv\<in>set rest. get_lq ?s (fst pv) = Some a \<longrightarrow> protected (lqs ?s a)"
      using Cons.prems(5) by (auto simp: wss_get_lq)
    from loop_untouched [OF this] show ?thesis
      unfolding qw loop_Cons using True vw Cons.prems(3,4) by (simp add: wss_lqs_hit)
  next
    case False
    then have "get_lq s q \<noteq> Some a" using Cons.prems(5) qw by auto
    then have same: "lqs ?s a = lqs s a" by (simp add: wss_lqs_other)
    have "distinct (map fst rest)" using Cons.prems(1) by simp
    moreover have "(p, v) \<in> set rest" using Cons.prems(2) qw False by simp
    moreover have "get_lq ?s p = Some a" using Cons.prems(3) by (simp add: wss_get_lq)
    moreover have "\<not> protected (lqs ?s a)" using Cons.prems(4) by (simp add: wss_protected)
    moreover have "\<forall>qw\<in>set rest. get_lq ?s (fst qw) = Some a \<longrightarrow> fst qw = p"
      using Cons.prems(5) by (simp add: wss_get_lq)
    ultimately have "lqs (snd (write_settings_loop (AList.update q (write_result s q) r) ?s rest)) a
        = (lqs ?s a)\<lparr>val := v\<rparr>"
      by (rule Cons.IH)
    then show ?thesis unfolding qw loop_Cons by (simp add: same)
  qed
qed

text \<open>
  C3. \<open>write_settings_safe\<close> never raises and handles each entry on its own: the
  report has exactly the input paths, in their order, each with the result code
  that the state before the call gives the path. The registry is unchanged; a
  setting that no writable input path resolves to is unchanged; a setting that
  exactly one input path resolves to, and is not protected, has that entry's value
  and is otherwise unchanged.
\<close>

theorem write_settings_safe_report:
  assumes "distinct (map fst m)"
  shows "fst (write_settings_safe s m) = map (\<lambda>pv. (fst pv, write_result s (fst pv))) m \<and>
     setting_paths (snd (write_settings_safe s m)) = setting_paths s \<and>
     (\<forall>a. (\<forall>pv\<in>set m. get_lq s (fst pv) = Some a \<longrightarrow> protected (lqs s a)) \<longrightarrow>
          lqs (snd (write_settings_safe s m)) a = lqs s a) \<and>
     (\<forall>p v a. (p, v) \<in> set m \<and> get_lq s p = Some a \<and> \<not> protected (lqs s a) \<and>
               (\<forall>qw\<in>set m. get_lq s (fst qw) = Some a \<longrightarrow> fst qw = p) \<longrightarrow>
          lqs (snd (write_settings_safe s m)) a = (lqs s a)\<lparr>val := v\<rparr>)"
proof -
  have "fst (write_settings_safe s m) = map (\<lambda>pv. (fst pv, write_result s (fst pv))) m"
    unfolding write_settings_safe_def loop_report
    using foldl_update_fresh [OF assms, of "[]" "write_result s"] by simp
  moreover have "setting_paths (snd (write_settings_safe s m)) = setting_paths s"
    by (simp add: write_settings_safe_def loop_paths)
  moreover have "lqs (snd (write_settings_safe s m)) a = lqs s a"
    if "\<forall>pv\<in>set m. get_lq s (fst pv) = Some a \<longrightarrow> protected (lqs s a)" for a
    unfolding write_settings_safe_def using that by (rule loop_untouched)
  moreover have "lqs (snd (write_settings_safe s m)) a = (lqs s a)\<lparr>val := v\<rparr>"
    if "(p, v) \<in> set m" "get_lq s p = Some a" "\<not> protected (lqs s a)"
      "\<forall>qw\<in>set m. get_lq s (fst qw) = Some a \<longrightarrow> fst qw = p" for p v a
    unfolding write_settings_safe_def using assms that by (rule loop_hit)
  ultimately show ?thesis by blast
qed

theorem write_settings_safe_report_witness:
  "distinct (map fst ex_writes) \<and>
   fst (write_settings_safe ex_app ex_writes) =
     [(''app/gone'', MISSING), (''app/gain'', SUCCESS), (''app/serial'', PROTECTED)] \<and>
   setting_paths (snd (write_settings_safe ex_app ex_writes)) = setting_paths ex_app \<and>
   lqs (snd (write_settings_safe ex_app ex_writes)) 1 = lqs ex_app 1 \<and>
   (''app/gain'', PInt 2) \<in> set ex_writes \<and> get_lq ex_app ''app/gain'' = Some 0 \<and>
   \<not> protected (lqs ex_app 0) \<and>
   lqs (snd (write_settings_safe ex_app ex_writes)) 0 = (lqs ex_app 0)\<lparr>val := PInt 2\<rparr>"
proof -
  have d: "distinct (map fst ex_writes)"
    by (simp add: ex_writes_def)
  note rep = write_settings_safe_report [OF d, of ex_app]
  note c1 = rep [THEN conjunct1]
  note c2 = rep [THEN conjunct2, THEN conjunct1]
  note c3 = rep [THEN conjunct2, THEN conjunct2, THEN conjunct1, THEN spec, THEN mp]
  note c4 = rep [THEN conjunct2, THEN conjunct2, THEN conjunct2,
      THEN spec [where x = "''app/gain''"], THEN spec, THEN spec, THEN mp]
  have r: "map (\<lambda>pv. (fst pv, write_result ex_app (fst pv))) ex_writes =
      [(''app/gone'', MISSING), (''app/gain'', SUCCESS), (''app/serial'', PROTECTED)]"
    by (simp add: ex_writes_def write_result_def get_lq_def ex_app_def)
  have u: "\<forall>pv\<in>set ex_writes. get_lq ex_app (fst pv) = Some 1 \<longrightarrow> protected (lqs ex_app 1)"
    by (simp add: ex_app_def)
  have h: "(''app/gain'', PInt 2) \<in> set ex_writes" "get_lq ex_app ''app/gain'' = Some 0"
    "\<not> protected (lqs ex_app 0)"
    "\<forall>qw\<in>set ex_writes. get_lq ex_app (fst qw) = Some 0 \<longrightarrow> fst qw = ''app/gain''"
    by (simp_all add: ex_writes_def get_lq_def ex_app_def)
  have e1: "lqs (snd (write_settings_safe ex_app ex_writes)) 1 = lqs ex_app 1"
    by (rule c3) (rule u)
  have e0: "lqs (snd (write_settings_safe ex_app ex_writes)) 0 = (lqs ex_app 0)\<lparr>val := PInt 2\<rparr>"
    by (rule c4) (intro conjI h)
  show ?thesis
    by (intro conjI d c2 e1 e0 h(1,2,3)) (simp only: c1 r)
qed

section \<open>Reading settings\<close>

text \<open>
  C4. \<open>read_settings\<close> on a list that holds a path with no registered setting:
  \<open>read_setting\<close> takes the attribute of \<open>None\<close>, and the whole call raises
  \<open>AttributeError\<close>, although the other path is registered.
\<close>

theorem read_settings_missing_path_raises:
  "get_lq ex_app ''app/gain'' = Some 0 \<and> get_lq ex_app ''app/gone'' = None \<and>
   read_settings ex_app (Some [''app/gain'', ''app/gone'']) False = Inl AttributeError \<and>
   read_settings ex_app (Some [''app/gain'', ''app/gone'']) True = Inl AttributeError"
  by (simp add: read_settings_def read_setting_def get_lq_def ex_app_def)

section \<open>Selecting a view for a file\<close>

lemma auto_select_loop_none:
  "\<forall>nv\<in>set xs. \<not> is_file_supported (vo (snd nv)) fname \<Longrightarrow>
   auto_select_loop vo xs fname = ''file_info''"
  by (induction xs) auto

lemma auto_select_loop_skip:
  "\<forall>nv\<in>set xs. \<not> is_file_supported (vo (snd nv)) fname \<Longrightarrow>
   auto_select_loop vo (xs @ ys) fname = auto_select_loop vo ys fname"
  by (induction xs) auto

lemma auto_select_loop_hit:
  "is_file_supported (vo (snd nv)) fname \<Longrightarrow> auto_select_loop vo (nv # ys) fname = fst nv"
  by (cases nv) simp

text \<open>
  C6. \<open>auto_select_view\<close> returns \<open>file_info\<close> when no registered view supports the
  file. Otherwise it returns the name of the supporting view that was registered
  last: the one at index \<open>i\<close> of \<open>views\<close> when no view at a later index supports the
  file.
\<close>

theorem auto_select_view_last_supported:
  "((\<forall>nv\<in>set (views s). \<not> is_file_supported (view_objs s (snd nv)) fname) \<longrightarrow>
      auto_select_view s fname = ''file_info'') \<and>
   (\<forall>i. i < length (views s) \<and>
        is_file_supported (view_objs s (snd (views s ! i))) fname \<and>
        (\<forall>j. i < j \<and> j < length (views s) \<longrightarrow>
             \<not> is_file_supported (view_objs s (snd (views s ! j))) fname) \<longrightarrow>
      auto_select_view s fname = fst (views s ! i))"
proof (intro conjI allI impI)
  assume "\<forall>nv\<in>set (views s). \<not> is_file_supported (view_objs s (snd nv)) fname"
  then show "auto_select_view s fname = ''file_info''"
    by (simp add: auto_select_view_def auto_select_loop_none)
next
  fix i
  assume h: "i < length (views s) \<and>
        is_file_supported (view_objs s (snd (views s ! i))) fname \<and>
        (\<forall>j. i < j \<and> j < length (views s) \<longrightarrow>
             \<not> is_file_supported (view_objs s (snd (views s ! j))) fname)"
  let ?vs = "views s"
  have decomp: "rev ?vs = rev (drop (Suc i) ?vs) @ (?vs ! i) # rev (take i ?vs)"
    using h id_take_nth_drop [of i ?vs] by (metis append_Cons append_Nil append_assoc rev.simps(2) rev_append)
  have later: "\<forall>nv\<in>set (rev (drop (Suc i) ?vs)). \<not> is_file_supported (view_objs s (snd nv)) fname"
  proof
    fix nv
    assume "nv \<in> set (rev (drop (Suc i) ?vs))"
    then obtain k where "k < length (drop (Suc i) ?vs)" "nv = drop (Suc i) ?vs ! k"
      by (auto simp: in_set_conv_nth)
    then have "nv = ?vs ! (Suc i + k)" "Suc i + k < length ?vs"
      by auto
    with h show "\<not> is_file_supported (view_objs s (snd nv)) fname"
      by simp
  qed
  show "auto_select_view s fname = fst (views s ! i)"
    unfolding auto_select_view_def decomp
    using h by (simp add: auto_select_loop_skip [OF later] auto_select_loop_hit)
qed

theorem auto_select_view_last_supported_witness:
  "views ex_db = [(''A'', 0), (''B'', 1), (''C'', 2)] \<and>
   is_file_supported (view_objs ex_db 1) ''x.dat'' \<and>
   is_file_supported (view_objs ex_db 2) ''x.dat'' \<and>
   auto_select_view ex_db ''x.dat'' = ''C'' \<and>
   \<not> is_file_supported (view_objs ex_db 0) ''notes.txt'' \<and>
   \<not> is_file_supported (view_objs ex_db 1) ''notes.txt'' \<and>
   \<not> is_file_supported (view_objs ex_db 2) ''notes.txt'' \<and>
   auto_select_view ex_db ''notes.txt'' = ''file_info''"
proof -
  have v: "views ex_db = [(''A'', 0), (''B'', 1), (''C'', 2)]"
    by (simp add: ex_db_def)
  have sup: "is_file_supported (view_objs ex_db 1) ''x.dat''"
    "is_file_supported (view_objs ex_db 2) ''x.dat''"
    by (simp_all add: ex_db_def default_view_def)
  have none: "\<forall>nv\<in>set (views ex_db). \<not> is_file_supported (view_objs ex_db (snd nv)) ''notes.txt''"
    by (simp add: ex_db_def default_view_def)
  have last: "2 < length (views ex_db) \<and>
        is_file_supported (view_objs ex_db (snd (views ex_db ! 2))) ''x.dat'' \<and>
        (\<forall>j. 2 < j \<and> j < length (views ex_db) \<longrightarrow>
             \<not> is_file_supported (view_objs ex_db (snd (views ex_db ! j))) ''x.dat'')"
    using sup by (simp add: v)
  have c: "auto_select_view ex_db ''x.dat'' = fst (views ex_db ! 2)"
    using auto_select_view_last_supported [of ex_db "''x.dat''", THEN conjunct2, THEN spec, THEN mp,
        OF last] .
  have n: "auto_select_view ex_db ''notes.txt'' = ''file_info''"
    using auto_select_view_last_supported [of ex_db "''notes.txt''", THEN conjunct1, THEN mp,
        OF none] .
  have nsup: "\<not> is_file_supported (view_objs ex_db 0) ''notes.txt''"
    "\<not> is_file_supported (view_objs ex_db 1) ''notes.txt''"
    "\<not> is_file_supported (view_objs ex_db 2) ''notes.txt''"
    by (simp_all add: ex_db_def default_view_def)
  show ?thesis
    using v sup nsup n c by simp
qed

section \<open>Paths of one segment\<close>

text \<open>
  C2. \<open>DataBrowser.get_lq\<close> on the path \<open>view\<close> (and on \<open>plugin\<close>): the path has one
  segment, \<open>parts[1]\<close> does not exist, and the call raises \<open>IndexError\<close>, in every
  state of the data browser.
\<close>

theorem db_get_lq_one_segment_raises:
  "db_get_lq change_choice_list s ''view'' = Inl IndexError \<and>
   db_get_lq change_choice_list s ''plugin'' = Inl IndexError"
  by (simp add: db_get_lq_def split_def)

section \<open>Activating a view\<close>


lemma setup_view_unloaded:
  "\<not> view_loaded (view_objs s v) \<Longrightarrow>
   \<exists>s'. setup_view s v = Inr s' \<and>
     view_objs s' = (view_objs s)(v := (view_objs s v)
        \<lparr>setup_calls := Suc (setup_calls (view_objs s v)), view_loaded := True\<rparr>) \<and>
     view_stack_indices s' =
       AList.update (view_name (view_objs s v)) (length (view_stack s)) (view_stack_indices s)"
  by (simp add: setup_view_def Let_def add_widget_def view_setup_def set_current_index_def
      update_conv')





lemma setup_view_current:
  "setup_view s v = Inr s1 \<Longrightarrow> current_view s1 = v"
  by (auto simp: setup_view_def Let_def add_widget_def set_current_index_def
      split: option.splits if_splits)

lemma setup_view_calls:
  assumes "setup_view s v = Inr s1"
  shows "current_view s1 = v \<and>
     (\<forall>u. setup_calls (view_objs s1 u) =
        setup_calls (view_objs s u) + (if u = v \<and> \<not> view_loaded (view_objs s v) then 1 else 0))"
proof (cases "view_loaded (view_objs s v)")
  case True
  with assms show ?thesis
    by (auto simp: setup_view_def set_current_index_def split: option.splits if_splits)
next
  case False
  from setup_view_unloaded [OF False] obtain s2 where
    "setup_view s v = Inr s2"
    "view_objs s2 = (view_objs s)(v := (view_objs s v)
        \<lparr>setup_calls := Suc (setup_calls (view_objs s v)), view_loaded := True\<rparr>)"
    by blast
  with assms have "view_objs s1 = (view_objs s)(v := (view_objs s v)
        \<lparr>setup_calls := Suc (setup_calls (view_objs s v)), view_loaded := True\<rparr>)"
    by simp
  with False setup_view_current [OF assms] show ?thesis
    by simp
qed

text \<open>
  Activating a view through \<open>on_change_view_name\<close>: the view named by the setting
  \<open>view_name\<close> becomes the current one, and its setup runs only if it was not
  loaded.
\<close>

lemma on_change_view_name_calls:
  assumes "on_change_view_name s = Inr s'"
  shows "\<exists>n v. collection_getitem (lqs s) (settings s) ''view_name'' = Inr (PStr n) \<and>
     map_of (views s) n = Some v \<and> current_view s' = v \<and>
     (\<forall>u. setup_calls (view_objs s' u) =
        setup_calls (view_objs s u) + (if u = v \<and> \<not> view_loaded (view_objs s v) then 1 else 0))"
proof -
  from assms obtain n v s1 where
    n: "collection_getitem (lqs s) (settings s) ''view_name'' = Inr (PStr n)"
    and v: "map_of (views s) n = Some v"
    and s1: "setup_view (s\<lparr>current_view := v\<rparr>) v = Inr s1"
    and s': "s' = s1 \<or> (\<exists>f. s' = s1\<lparr>view_objs := (view_objs s1)(current_view s1 :=
                   view_on_change_data_filename (view_objs s1 (current_view s1)) f)\<rparr>)"
    by (auto simp: on_change_view_name_def
        split: sum.splits option.splits pyval.splits bool.splits)
  from setup_view_calls [OF s1] have
    "current_view s1 = v"
    "\<forall>u. setup_calls (view_objs s1 u) =
        setup_calls (view_objs s u) + (if u = v \<and> \<not> view_loaded (view_objs s v) then 1 else 0)"
    by simp_all
  with s' have "current_view s' = v \<and>
     (\<forall>u. setup_calls (view_objs s' u) =
        setup_calls (view_objs s u) + (if u = v \<and> \<not> view_loaded (view_objs s v) then 1 else 0))"
    by (auto simp: view_on_change_data_filename_def)
  with n v show ?thesis by blast
qed

section \<open>Resolving a path in the data browser\<close>

lemma split_not_empty: "split_acc c cur s \<noteq> []"
  by (induction s arbitrary: cur) auto

text \<open>
  When the path names no registered view and no registered plugin, whatever its
  first segments are, the code looks up the last segment in the app's collection
  and leaves the state as it is.
\<close>

lemma db_get_lq_fallback:
  assumes "split CHR ''/'' path = p0 # p1 # ps"
    and "p0 = ''view'' \<longrightarrow> map_of (views s) p1 = None"
    and "p0 = ''plugin'' \<longrightarrow> map_of (plugins s) p1 = None"
  shows "db_get_lq change_choice_list s path = Inr (map_of (settings s) (last (p1 # ps)), s)"
  using assms by (cases "p0 = ''view''"; cases "p0 = ''plugin''") (simp_all add: db_get_lq_def)

text \<open>
  C5. The specification resolves a path that names no known sub-container as a
  whole against the root collection, so \<open>view/Z/data_filename\<close> (there is no view \<open>Z\<close>)
  and \<open>cfg/data_filename\<close> (there is no section \<open>cfg\<close>) are not found: neither is a
  member of the app's collection or a key of the registry. The code looks up the
  last segment only and returns the app's setting \<open>data_filename\<close> for both.
\<close>

theorem db_get_lq_resolves_unknown_container:
  "map_of (views ex_db) ''Z'' = None \<and>
   spec_get_lq ex_db ''view/Z/data_filename'' = None \<and>
   get_lq ex_db ''view/Z/data_filename'' = None \<and>
   db_get_lq change_choice_list ex_db ''view/Z/data_filename'' = Inr (Some 0, ex_db) \<and>
   spec_get_lq ex_db ''cfg/data_filename'' = None \<and>
   get_lq ex_db ''cfg/data_filename'' = None \<and>
   db_get_lq change_choice_list ex_db ''cfg/data_filename'' = Inr (Some 0, ex_db)"
  by (simp add: db_get_lq_def spec_get_lq_def split_def ex_db_def get_lq_def)

section \<open>Loading an INI file\<close>

lemma psv_Cons:
  "propose_settings_values s name ((p, v) # rest) =
   propose_settings_values
     (case get_lq s p of None \<Rightarrow> s
      | Some a \<Rightarrow> s\<lparr>lqs := (lqs s)(a := propose_value (lqs s a) name v)\<rparr>) name rest"
  by (simp split: option.splits)

lemma psv_fields:
  "setting_paths (propose_settings_values s name m) = setting_paths s \<and>
   fs (propose_settings_values s name m) = fs s \<and>
   (\<forall>a. val (lqs (propose_settings_values s name m) a) = val (lqs s a)) \<and>
   (\<forall>a. protected (lqs (propose_settings_values s name m) a) = protected (lqs s a))"
proof (induction m arbitrary: s)
  case Nil
  then show ?case by simp
next
  case (Cons pv rest)
  obtain p v where pv: "pv = (p, v)" by (cases pv)
  show ?case
    unfolding pv psv_Cons
    by (cases "get_lq s p") (simp_all add: Cons.IH propose_value_def)
qed

lemma psv_get_lq: "get_lq (propose_settings_values s name m) q = get_lq s q"
  by (simp add: get_lq_def psv_fields)

lemma psv_untouched:
  "\<forall>pv\<in>set m. get_lq s (fst pv) \<noteq> Some a \<Longrightarrow>
   lqs (propose_settings_values s name m) a = lqs s a"
proof (induction m arbitrary: s)
  case Nil
  then show ?case by simp
next
  case (Cons pv rest)
  obtain p v where pv: "pv = (p, v)" by (cases pv)
  let ?s = "case get_lq s p of None \<Rightarrow> s
      | Some b \<Rightarrow> s\<lparr>lqs := (lqs s)(b := propose_value (lqs s b) name v)\<rparr>"
  have g: "get_lq ?s q = get_lq s q" for q
    by (simp add: get_lq_def split: option.splits)
  have same: "lqs ?s a = lqs s a"
    using Cons.prems pv by (auto split: option.splits)
  have "\<forall>pv\<in>set rest. get_lq ?s (fst pv) \<noteq> Some a"
    using Cons.prems by (simp add: g)
  from Cons.IH [OF this] same show ?case
    unfolding pv psv_Cons by simp
qed

lemma psv_hit:
  assumes "distinct (map fst m)" "(p, v) \<in> set m" "get_lq s p = Some a"
    "\<forall>qw\<in>set m. get_lq s (fst qw) = Some a \<longrightarrow> fst qw = p"
  shows "lqs (propose_settings_values s name m) a =
     (lqs s a)\<lparr>proposed_values := AList.update name v (proposed_values (lqs s a))\<rparr>"
  using assms
proof (induction m arbitrary: s)
  case Nil
  then show ?case by simp
next
  case (Cons qw rest)
  obtain q w where qw: "qw = (q, w)" by (cases qw)
  let ?s = "case get_lq s q of None \<Rightarrow> s
      | Some b \<Rightarrow> s\<lparr>lqs := (lqs s)(b := propose_value (lqs s b) name w)\<rparr>"
  have g: "get_lq ?s r = get_lq s r" for r
    by (simp add: get_lq_def split: option.splits)
  show ?case
  proof (cases "q = p")
    case True
    have "p \<notin> fst ` set rest" using Cons.prems(1) qw True by simp
    then have vw: "w = v" and "\<forall>pv\<in>set rest. fst pv \<noteq> p"
      using Cons.prems(2) qw True by force+
    then have "\<forall>pv\<in>set rest. get_lq ?s (fst pv) \<noteq> Some a"
      using Cons.prems(4) by (auto simp: g)
    from psv_untouched [OF this] show ?thesis
      unfolding qw psv_Cons using True vw Cons.prems(3) by (simp add: propose_value_def)
  next
    case False
    then have "get_lq s q \<noteq> Some a" using Cons.prems(4) qw by auto
    then have same: "lqs ?s a = lqs s a" by (auto split: option.splits)
    have "distinct (map fst rest)" using Cons.prems(1) by simp
    moreover have "(p, v) \<in> set rest" using Cons.prems(2) qw False by simp
    moreover have "get_lq ?s p = Some a" using Cons.prems(3) by (simp add: g)
    moreover have "\<forall>qw\<in>set rest. get_lq ?s (fst qw) = Some a \<longrightarrow> fst qw = p"
      using Cons.prems(4) by (simp add: g)
    ultimately have "lqs (propose_settings_values ?s name rest) a =
        (lqs ?s a)\<lparr>proposed_values := AList.update name v (proposed_values (lqs ?s a))\<rparr>"
      by (rule Cons.IH)
    then show ?thesis unfolding qw psv_Cons by (simp add: same)
  qed
qed

lemma wss_loop_get_lq: "get_lq (snd (write_settings_loop r s m)) q = get_lq s q"
  by (simp add: get_lq_def loop_paths)

lemma wss_loop_proposals:
  "proposed_values (lqs (snd (write_settings_loop r s m)) a) = proposed_values (lqs s a)"
proof (induction m arbitrary: r s)
  case Nil
  then show ?case by simp
next
  case (Cons pv rest)
  obtain p v where pv: "pv = (p, v)" by (cases pv)
  have "proposed_values (lqs (snd (write_setting_safe s p v)) a) = proposed_values (lqs s a)"
    by (simp add: write_setting_safe_def update_value_def split: option.splits)
  then show ?case unfolding pv loop_Cons Cons.IH .
qed

lemma distinct_foldl_update:
  "distinct (map fst d) \<Longrightarrow>
   distinct (map fst (foldl (\<lambda>d pv. AList.update (fst pv) (g (snd pv)) d) d f))"
  by (induction f arbitrary: d) (simp_all add: distinct_update)

lemma load_settings_distinct:
  "load_settings fsys fname = Inr m \<Longrightarrow> distinct (map fst m)"
  using distinct_foldl_update [of "[]" PStr]
  by (auto simp: load_settings_def case_prod_unfold split: option.splits)

text \<open>
  C7, as the code has it. \<open>settings_load_ini\<close> on a file that loads as \<open>m\<close> returns
  \<open>m\<close>; the state is the one after \<open>write_settings_safe\<close> on \<open>m\<close>, followed by
  \<open>propose_settings_values\<close> on \<open>m\<close> under the name of the file. Every protected
  setting keeps its value. Every loaded path that resolves has its loaded value as
  the proposal under the file's name, whether the write succeeded or not (stated
  for a setting that one loaded path resolves to). A setting that no loaded path
  resolves to is unchanged: for a path that does not resolve nothing is recorded.
\<close>

theorem settings_load_ini_proposals:
  assumes "load_settings (fs s) fname = Inr m"
  shows "\<exists>s'. settings_load_ini s fname = Inr (m, s') \<and>
     s' = propose_settings_values (snd (write_settings_safe s m)) (path_name fname) m \<and>
     (\<forall>a. protected (lqs s a) \<longrightarrow> val (lqs s' a) = val (lqs s a)) \<and>
     (\<forall>p v a. (p, v) \<in> set m \<and> get_lq s p = Some a \<and>
               (\<forall>qw\<in>set m. get_lq s (fst qw) = Some a \<longrightarrow> fst qw = p) \<longrightarrow>
          proposed_values (lqs s' a) =
            AList.update (path_name fname) v (proposed_values (lqs s a))) \<and>
     (\<forall>a. (\<forall>pv\<in>set m. get_lq s (fst pv) \<noteq> Some a) \<longrightarrow> lqs s' a = lqs s a)"
proof -
  let ?w = "snd (write_settings_safe s m)"
  let ?s' = "propose_settings_values ?w (path_name fname) m"
  have d: "distinct (map fst m)"
    using assms by (rule load_settings_distinct)
  have g: "get_lq ?w q = get_lq s q" for q
    by (simp add: write_settings_safe_def wss_loop_get_lq)
  have res: "settings_load_ini s fname = Inr (m, ?s')"
    by (simp add: settings_load_ini_def assms case_prod_beta)
  have prot: "val (lqs ?s' a) = val (lqs s a)" if "protected (lqs s a)" for a
  proof -
    have "\<forall>pv\<in>set m. get_lq s (fst pv) = Some a \<longrightarrow> protected (lqs s a)"
      using that by blast
    then have "lqs ?w a = lqs s a"
      unfolding write_settings_safe_def by (rule loop_untouched)
    then show ?thesis by (simp add: psv_fields)
  qed
  have recorded: "proposed_values (lqs ?s' a) =
      AList.update (path_name fname) v (proposed_values (lqs s a))"
    if "(p, v) \<in> set m" "get_lq s p = Some a"
      "\<forall>qw\<in>set m. get_lq s (fst qw) = Some a \<longrightarrow> fst qw = p" for p v a
  proof -
    have "lqs ?s' a = (lqs ?w a)\<lparr>proposed_values :=
        AList.update (path_name fname) v (proposed_values (lqs ?w a))\<rparr>"
    proof (rule psv_hit [OF d that(1)])
      show "get_lq ?w p = Some a"
        using that(2) by (simp only: g)
      show "\<forall>qw\<in>set m. get_lq ?w (fst qw) = Some a \<longrightarrow> fst qw = p"
        using that(3) by (simp only: g)
    qed
    then show ?thesis
      by (simp add: write_settings_safe_def wss_loop_proposals)
  qed
  have rest: "lqs ?s' a = lqs s a" if "\<forall>pv\<in>set m. get_lq s (fst pv) \<noteq> Some a" for a
  proof -
    have "\<forall>pv\<in>set m. get_lq ?w (fst pv) \<noteq> Some a"
      using that by (simp only: g)
    then have "lqs ?s' a = lqs ?w a"
      by (rule psv_untouched)
    moreover have "\<forall>pv\<in>set m. get_lq s (fst pv) = Some a \<longrightarrow> protected (lqs s a)"
      using that by blast
    then have "lqs ?w a = lqs s a"
      unfolding write_settings_safe_def by (rule loop_untouched)
    ultimately show ?thesis by simp
  qed
  have c3: "\<forall>a. protected (lqs s a) \<longrightarrow> val (lqs ?s' a) = val (lqs s a)"
    using prot by blast
  have c4: "\<forall>p v a. (p, v) \<in> set m \<and> get_lq s p = Some a \<and>
               (\<forall>qw\<in>set m. get_lq s (fst qw) = Some a \<longrightarrow> fst qw = p) \<longrightarrow>
          proposed_values (lqs ?s' a) =
            AList.update (path_name fname) v (proposed_values (lqs s a))"
    using recorded by blast
  have c5: "\<forall>a. (\<forall>pv\<in>set m. get_lq s (fst pv) \<noteq> Some a) \<longrightarrow> lqs ?s' a = lqs s a"
    using rest by blast
  show ?thesis
    by (rule exI [of _ ?s']) (intro conjI res refl c3 c4 c5)
qed
theorem settings_load_ini_proposals_witness:
  "load_settings (fs ex_saved) ''saved/fileA.ini'' =
     Inr [(''app/gone'', PStr ''7''), (''app/serial'', PStr ''5'')] \<and>
   path_name ''saved/fileA.ini'' = ''fileA.ini'' \<and>
   protected (lqs ex_saved 1) \<and> val (lqs ex_saved 1) = PInt 10 \<and>
   get_lq ex_saved ''app/serial'' = Some 1 \<and>
   (\<exists>s'. settings_load_ini ex_saved ''saved/fileA.ini'' =
       Inr ([(''app/gone'', PStr ''7''), (''app/serial'', PStr ''5'')], s') \<and>
     val (lqs s' 1) = PInt 10 \<and>
     proposed_values (lqs s' 1) = [(''fileA.ini'', PStr ''5'')] \<and>
     lqs s' 0 = lqs ex_saved 0)"
proof -
  let ?m = "[(''app/gone'', PStr ''7''), (''app/serial'', PStr ''5'')]"
  have l: "load_settings (fs ex_saved) ''saved/fileA.ini'' = Inr ?m"
    by (simp add: load_settings_def ex_saved_def)
  have n: "path_name ''saved/fileA.ini'' = ''fileA.ini''"
    by (simp add: path_name_def split_def)
  have st: "protected (lqs ex_saved 1)" "val (lqs ex_saved 1) = PInt 10"
    "get_lq ex_saved ''app/serial'' = Some 1" "proposed_values (lqs ex_saved 1) = []"
    by (simp_all add: ex_saved_def ex_app_def get_lq_def)
  have u: "\<forall>qw\<in>set ?m. get_lq ex_saved (fst qw) = Some 1 \<longrightarrow> fst qw = ''app/serial''"
    by (simp add: ex_saved_def ex_app_def get_lq_def)
  have z: "\<forall>pv\<in>set ?m. get_lq ex_saved (fst pv) \<noteq> Some 0"
    by (simp add: ex_saved_def ex_app_def get_lq_def)
  from settings_load_ini_proposals [OF l] obtain s' where
    r: "settings_load_ini ex_saved ''saved/fileA.ini'' = Inr (?m, s')"
    and c3: "\<forall>a. protected (lqs ex_saved a) \<longrightarrow> val (lqs s' a) = val (lqs ex_saved a)"
    and c4: "\<forall>p v a. (p, v) \<in> set ?m \<and> get_lq ex_saved p = Some a \<and>
               (\<forall>qw\<in>set ?m. get_lq ex_saved (fst qw) = Some a \<longrightarrow> fst qw = p) \<longrightarrow>
          proposed_values (lqs s' a) =
            AList.update (path_name ''saved/fileA.ini'') v (proposed_values (lqs ex_saved a))"
    and c5: "\<forall>a. (\<forall>pv\<in>set ?m. get_lq ex_saved (fst pv) \<noteq> Some a) \<longrightarrow> lqs s' a = lqs ex_saved a"
    by blast
  have v1: "val (lqs s' 1) = PInt 10"
    using c3 [THEN spec, of 1] st by simp
  have "(''app/serial'', PStr ''5'') \<in> set ?m \<and> get_lq ex_saved ''app/serial'' = Some 1 \<and>
      (\<forall>qw\<in>set ?m. get_lq ex_saved (fst qw) = Some 1 \<longrightarrow> fst qw = ''app/serial'')"
    using st(3) u by simp
  from c4 [THEN spec, THEN spec, THEN spec, THEN mp, OF this]
  have p1: "proposed_values (lqs s' 1) = [(''fileA.ini'', PStr ''5'')]"
    using st(4) by (simp add: n)
  have p0: "lqs s' 0 = lqs ex_saved 0"
    using c5 [THEN spec, THEN mp, OF z] .
  show ?thesis
    using l n st r v1 p1 p0 by simp
qed

text \<open>
  C7, as the specification words it, fails on the code. The file holds the path
  \<open>app/gone\<close>, which is not registered, with the value 7, and the path of the
  protected setting with the value 5. After the load the state differs from the
  one before in the proposal of the protected setting only: the value loaded for
  \<open>app/gone\<close> is recorded nowhere.
\<close>

theorem settings_load_ini_missing_path_counterexample:
  "get_lq ex_saved ''app/gone'' = None \<and>
   settings_load_ini ex_saved ''saved/fileA.ini'' =
     Inr ([(''app/gone'', PStr ''7''), (''app/serial'', PStr ''5'')],
          ex_saved\<lparr>lqs := (lqs ex_saved)
            (1 := (lqs ex_saved 1)\<lparr>proposed_values := [(''fileA.ini'', PStr ''5'')]\<rparr>)\<rparr>)"
  by (simp add: settings_load_ini_def load_settings_def write_settings_safe_def
      write_setting_safe_def get_lq_def propose_value_def path_name_def split_def
      ex_saved_def ex_app_def)

section \<open>Saving and loading an INI file\<close>









end
